theory Spec2Isabelle
  imports Main "HOL-Library.Sublist"
begin

section \<open>The icon generator \<^verbatim>\<open>generate_icon.py\<close>\<close>

text \<open>
  The script turns one image into a macOS \<^verbatim>\<open>.icns\<close> bundle: it creates the output
  directory, recreates a working directory of a fixed name, runs \<^verbatim>\<open>sips\<close> once per entry of
  a fixed table, runs \<^verbatim>\<open>iconutil\<close> once, and removes the working directory. Everything it
  does is an effect on the file system, on the console or on a child process, so the model
  threads an explicit \<open>world\<close> through the calls and records every effect in a trace.
\<close>

subsection \<open>Strings\<close>

text \<open>
  Python strings are modelled as \<open>string\<close>, holding the UTF-8 bytes of the text. The console
  messages of the script start with a pictograph; each is the byte sequence of its code
  point.
\<close>

definition artist_palette :: string where
  "artist_palette = [CHR 0xF0, CHR 0x9F, CHR 0x8E, CHR 0xA8]"

definition inbox_tray :: string where
  "inbox_tray = [CHR 0xF0, CHR 0x9F, CHR 0x93, CHR 0xA5]"

definition triangular_ruler :: string where
  "triangular_ruler = [CHR 0xF0, CHR 0x9F, CHR 0x93, CHR 0x90]"

definition cross_mark :: string where
  "cross_mark = [CHR 0xE2, CHR 0x9D, CHR 0x8C]"

definition check_mark :: string where
  "check_mark = [CHR 0xE2, CHR 0x9C, CHR 0x85]"

definition hammer :: string where
  "hammer = [CHR 0xF0, CHR 0x9F, CHR 0x94, CHR 0xA8]"

definition package :: string where
  "package = [CHR 0xF0, CHR 0x9F, CHR 0x93, CHR 0xA6]"


text \<open>\<^verbatim>\<open>str(n)\<close> on an integer: its decimal digits, with a minus sign when negative.\<close>

function str_nat :: "nat \<Rightarrow> string" where
  "str_nat n =
     (if n < 10 then [''0123456789'' ! n]
      else str_nat (n div 10) @ [''0123456789'' ! (n mod 10)])"
  by pat_completeness auto
termination
  by (relation "measure id") auto

declare str_nat.simps [simp del]

definition str_int :: "int \<Rightarrow> string" where
  "str_int i = (if i < 0 then CHR ''-'' # str_nat (nat (- i)) else str_nat (nat i))"

text \<open>\<^verbatim>\<open>s.split(sep)\<close> for a one-character separator: never the empty list.\<close>

fun split_sep :: "char \<Rightarrow> string \<Rightarrow> string list" where
  "split_sep c [] = [[]]"
| "split_sep c (x # xs) =
     (if x = c then [] # split_sep c xs
      else (case split_sep c xs of
              [] \<Rightarrow> [[x]]
            | y # ys \<Rightarrow> (x # y) # ys))"

text \<open>\<^verbatim>\<open>sep.join(xs)\<close>.\<close>

fun join_sep :: "string \<Rightarrow> string list \<Rightarrow> string" where
  "join_sep sep [] = []"
| "join_sep sep [x] = x"
| "join_sep sep (x # y # ys) = x @ sep @ join_sep sep (y # ys)"

subsection \<open>Paths\<close>

text \<open>
  \<^verbatim>\<open>pathlib.Path(s)\<close> on a POSIX system keeps a root (\<^verbatim>\<open>''\<close>, \<^verbatim>\<open>'/'\<close>, or \<^verbatim>\<open>'//'\<close> for exactly
  two leading slashes) and the components of \<open>s\<close> between slashes, without the empty ones
  and the single dots. \<^verbatim>\<open>.parent\<close> drops the last component, \<^verbatim>\<open>str\<close> joins them again.
\<close>

record pure_path =
  root :: string
  parts :: "string list"

definition Path :: "string \<Rightarrow> pure_path" where
  "Path s =
     (let slashes = length (takeWhile (\<lambda>c. c = CHR ''/'') s)
      in \<lparr>root = (if slashes = 0 then '''' else if slashes = 2 then ''//'' else ''/''),
          parts = filter (\<lambda>x. x \<noteq> '''' \<and> x \<noteq> ''.'') (split_sep CHR ''/'' s)\<rparr>)"

definition parent :: "pure_path \<Rightarrow> pure_path" where
  "parent p = (if parts p = [] then p else p\<lparr>parts := butlast (parts p)\<rparr>)"

definition str_path :: "pure_path \<Rightarrow> string" where
  "str_path p =
     (let s = root p @ join_sep ''/'' (parts p) in if s = '''' then ''.'' else s)"

text \<open>
  \<^verbatim>\<open>os.path.join(a, b)\<close> for two components: \<open>b\<close> alone when it is absolute, otherwise
  \<open>a\<close>, a slash unless \<open>a\<close> is empty or ends in one, and \<open>b\<close>.
\<close>

definition os_path_join :: "string \<Rightarrow> string \<Rightarrow> string" where
  "os_path_join a b =
     (if b \<noteq> '''' \<and> hd b = CHR ''/'' then b
      else if a = '''' \<or> last a = CHR ''/'' then a @ b
      else a @ ''/'' @ b)"

subsection \<open>The size table\<close>

text \<open>The name of the working directory and the table \<^verbatim>\<open>icon_sizes\<close> of the script.\<close>

definition iconset_name :: string where
  "iconset_name = ''VeloxClip.iconset''"

definition icon_sizes :: "(int \<times> string) list" where
  "icon_sizes =
     [(16, ''icon_16x16.png''),
      (32, ''icon_16x16@2x.png''),
      (32, ''icon_32x32.png''),
      (64, ''icon_32x32@2x.png''),
      (128, ''icon_128x128.png''),
      (256, ''icon_128x128@2x.png''),
      (256, ''icon_256x256.png''),
      (512, ''icon_256x256@2x.png''),
      (512, ''icon_512x512.png''),
      (1024, ''icon_512x512@2x.png'')]"

text \<open>
  The naming convention the table follows: a rendition of nominal size \<open>n\<close> at scale 1 is
  \<^verbatim>\<open>icon_nxn.png\<close>, at scale 2 it is \<^verbatim>\<open>icon_nxn@2x.png\<close> and has \<open>2n\<close> pixels.
\<close>

definition rendition_name :: "int \<Rightarrow> int \<Rightarrow> string" where
  "rendition_name n scale =
     ''icon_'' @ str_int n @ ''x'' @ str_int n @ (if scale = 2 then ''@2x'' else '''') @ ''.png''"

definition rendition :: "int \<Rightarrow> int \<Rightarrow> int \<times> string" where
  "rendition n scale = (n * scale, rendition_name n scale)"

subsection \<open>The file system\<close>

text \<open>
  A file system maps the absolute path of a node, as the list of its components, to the
  kind of the node; the root is the empty list and is always a directory. A path given as
  text is resolved against the current directory of the process. The model reads a path by
  its components only: \<^verbatim>\<open>..\<close> components, symbolic links, permissions and the
  trailing-slash forms of a name are outside it.
\<close>

type_synonym path = "string list"

datatype node = File | Dir

type_synonym filesystem = "path \<Rightarrow> node option"

definition lookup :: "filesystem \<Rightarrow> path \<Rightarrow> node option" where
  "lookup f p = (if p = [] then Some Dir else f p)"

definition locate :: "path \<Rightarrow> pure_path \<Rightarrow> path" where
  "locate c p = (if root p = '''' then c @ parts p else parts p)"

definition resolve :: "path \<Rightarrow> string \<Rightarrow> path" where
  "resolve c s = locate c (Path s)"

text \<open>The exceptions of the operating system calls the script makes.\<close>

datatype error = FileExistsError | FileNotFoundError | NotADirectoryError

text \<open>
  \<^verbatim>\<open>os.mkdir\<close> on a resolved path: the directory above must exist and be a directory, the
  path itself must be free.
\<close>

definition os_mkdir :: "path \<Rightarrow> filesystem \<Rightarrow> error + filesystem" where
  "os_mkdir p f =
     (if p = [] then Inl FileExistsError
      else (case lookup f (butlast p) of
              None \<Rightarrow> Inl FileNotFoundError
            | Some File \<Rightarrow> Inl NotADirectoryError
            | Some Dir \<Rightarrow> (if f p = None then Inr (f(p \<mapsto> Dir)) else Inl FileExistsError)))"

text \<open>
  \<^verbatim>\<open>Path.mkdir(parents=True, exist_ok=True)\<close>, as pathlib writes it: try \<^verbatim>\<open>os.mkdir\<close>; when
  the directory above is missing, make that one first and try once more, this time without
  making parents; any failure other than a missing directory above is forgiven when the
  path is a directory already. The file system is returned with the error, as it stands
  when the exception is raised.
\<close>

function path_mkdir :: "path \<Rightarrow> pure_path \<Rightarrow> filesystem \<Rightarrow> error option \<times> filesystem" where
  "path_mkdir c p f =
     (case os_mkdir (locate c p) f of
        Inr f' \<Rightarrow> (None, f')
      | Inl e \<Rightarrow>
          if e = FileNotFoundError then
            (if parent p = p then (Some e, f)
             else (case path_mkdir c (parent p) f of
                     (Some e', f1) \<Rightarrow> (Some e', f1)
                   | (None, f1) \<Rightarrow>
                       (case os_mkdir (locate c p) f1 of
                          Inr f2 \<Rightarrow> (None, f2)
                        | Inl e2 \<Rightarrow>
                            if e2 \<noteq> FileNotFoundError \<and> lookup f1 (locate c p) = Some Dir
                            then (None, f1)
                            else (Some e2, f1))))
          else if lookup f (locate c p) = Some Dir then (None, f)
          else (Some e, f))"
  by pat_completeness auto
termination
  by (relation "measure (\<lambda>(c, p, f). length (parts p))")
     (auto simp: parent_def split: if_splits intro: diff_less)

declare path_mkdir.simps [simp del]

text \<open>
  \<^verbatim>\<open>shutil.rmtree\<close> on a resolved path: a directory goes with everything below it; a
  missing path and a plain file raise.
\<close>

definition remove_tree :: "path \<Rightarrow> filesystem \<Rightarrow> filesystem" where
  "remove_tree p f = (\<lambda>q. if prefix p q then None else f q)"

definition rmtree :: "path \<Rightarrow> filesystem \<Rightarrow> error + filesystem" where
  "rmtree p f =
     (case lookup f p of
        None \<Rightarrow> Inl FileNotFoundError
      | Some File \<Rightarrow> Inl NotADirectoryError
      | Some Dir \<Rightarrow> Inr (remove_tree p f))"

text \<open>
  \<^verbatim>\<open>os.path.split\<close> cuts a name after its last slash and strips the slashes at the end of
  the head, unless the head is slashes only. \<^verbatim>\<open>os.makedirs\<close> splits once more when the
  tail is empty.
\<close>

definition os_path_split :: "string \<Rightarrow> string \<times> string" where
  "os_path_split s =
     (let tail = rev (takeWhile (\<lambda>c. c \<noteq> CHR ''/'') (rev s));
          head = take (length s - length tail) s
      in (if filter (\<lambda>c. c \<noteq> CHR ''/'') head = [] then head
          else rev (dropWhile (\<lambda>c. c = CHR ''/'') (rev head)),
          tail))"

definition makedirs_split :: "string \<Rightarrow> string \<times> string" where
  "makedirs_split name =
     (case os_path_split name of
        (head, tail) \<Rightarrow> if tail = '''' then os_path_split head else (head, tail))"

lemma os_path_split_length:
  "length (fst (os_path_split s)) + length (snd (os_path_split s)) \<le> length s"
proof -
  let ?t = "takeWhile (\<lambda>c. c \<noteq> CHR ''/'') (rev s)"
  let ?h = "take (length s - length ?t) s"
  have t: "length ?t \<le> length s"
    using length_takeWhile_le[of _ "rev s"] by simp
  have h: "length ?h = length s - length ?t" by simp
  have d: "length (dropWhile (\<lambda>c. c = CHR ''/'') (rev ?h)) \<le> length ?h"
    using length_dropWhile_le[of _ "rev ?h"] by simp
  show ?thesis
    using t h d by (auto simp add: os_path_split_def Let_def)
qed

lemma makedirs_split_shorter:
  assumes "snd (makedirs_split name) \<noteq> ''''"
  shows "length (fst (makedirs_split name)) < length name"
proof (cases "snd (os_path_split name) = ''''")
  case True
  then have eq: "makedirs_split name = os_path_split (fst (os_path_split name))"
    by (cases "os_path_split name") (simp add: makedirs_split_def)
  with assms have "0 < length (snd (os_path_split (fst (os_path_split name))))" by simp
  then show ?thesis
    using os_path_split_length[of name] os_path_split_length[of "fst (os_path_split name)"]
    unfolding eq by linarith
next
  case False
  then have eq: "makedirs_split name = os_path_split name"
    by (cases "os_path_split name") (simp add: makedirs_split_def)
  with assms have "0 < length (snd (os_path_split name))" by simp
  then show ?thesis
    using os_path_split_length[of name] unfolding eq by linarith
qed

text \<open>
  \<^verbatim>\<open>os.makedirs(name)\<close> with \<^verbatim>\<open>exist_ok=False\<close>, as the standard library writes it: when
  the head of the name is missing it is made first (a \<^verbatim>\<open>FileExistsError\<close> from that call is
  passed over), then \<^verbatim>\<open>os.mkdir(name)\<close> runs and every failure of it is raised. The empty
  name is \<^verbatim>\<open>FileNotFoundError\<close>.
\<close>

function os_makedirs_fs :: "path \<Rightarrow> string \<Rightarrow> filesystem \<Rightarrow> error option \<times> filesystem" where
  "os_makedirs_fs c name f =
     (let head = fst (makedirs_split name); tail = snd (makedirs_split name);
          mkdir = (\<lambda>g. if name = '''' then (Some FileNotFoundError, g)
                       else (case os_mkdir (resolve c name) g of
                               Inl e \<Rightarrow> (Some e, g)
                             | Inr g' \<Rightarrow> (None, g')))
      in if head \<noteq> '''' \<and> tail \<noteq> '''' \<and> lookup f (resolve c head) = None then
           (case os_makedirs_fs c head f of
              (Some e, f1) \<Rightarrow>
                if e = FileExistsError then (if tail = ''.'' then (None, f1) else mkdir f1)
                else (Some e, f1)
            | (None, f1) \<Rightarrow> if tail = ''.'' then (None, f1) else mkdir f1)
         else mkdir f)"
  by pat_completeness auto
termination
  by (relation "measure (\<lambda>(c, name, f). length name)")
     (auto simp: makedirs_split_shorter)

declare os_makedirs_fs.simps [simp del]

subsection \<open>Child processes, the world and its trace\<close>

text \<open>
  \<^verbatim>\<open>subprocess.run(argv, capture_output=True, text=True)\<close> starts a program and waits for
  it. What the program does is not the script's: it is a parameter \<open>system\<close> of the model,
  which for an argument vector and the file system of the moment says either that the
  program could not be started (\<^verbatim>\<open>subprocess.run\<close> raises \<^verbatim>\<open>FileNotFoundError\<close>) or that it
  ran, with its exit status, its captured diagnostic text and the file system it left.
\<close>

record completed_process =
  returncode :: int
  stderr :: string

datatype launch = NotFound | Ran completed_process filesystem

type_synonym system = "string list \<Rightarrow> filesystem \<Rightarrow> launch"

text \<open>
  The world of a run: the file system, the current directory, and the trace of everything
  the run has done so far, in order. \<^verbatim>\<open>sys.exit(n)\<close> raises \<^verbatim>\<open>SystemExit(n)\<close>, so it is
  an exception of the model as well.
\<close>

datatype event =
    Mkdir_parents pure_path
  | Rmtree string
  | Makedirs string
  | Print string
  | Run "string list" launch

record world =
  fs :: filesystem
  cwd :: path
  trace :: "event list"

datatype exception = OSError error | SystemExit int

type_synonym 'a action = "world \<Rightarrow> (exception + 'a) \<times> world"

definition return :: "'a \<Rightarrow> 'a action" where
  "return x w = (Inr x, w)"


definition and_then :: "'a action \<Rightarrow> ('a \<Rightarrow> 'b action) \<Rightarrow> 'b action" where
  "and_then m k w = (case m w of (Inl e, w') \<Rightarrow> (Inl e, w') | (Inr x, w') \<Rightarrow> k x w')"

definition emit :: "event \<Rightarrow> world \<Rightarrow> world" where
  "emit e w = w\<lparr>trace := trace w @ [e]\<rparr>"

definition print :: "string \<Rightarrow> unit action" where
  "print s w = (Inr (), emit (Print s) w)"


definition os_path_exists :: "string \<Rightarrow> world \<Rightarrow> bool" where
  "os_path_exists s w = (s \<noteq> '''' \<and> lookup (fs w) (resolve (cwd w) s) \<noteq> None)"

definition Path_mkdir :: "pure_path \<Rightarrow> unit action" where
  "Path_mkdir p w =
     (case path_mkdir (cwd w) p (fs w) of
        (Some e, f) \<Rightarrow> (Inl (OSError e), emit (Mkdir_parents p) (w\<lparr>fs := f\<rparr>))
      | (None, f) \<Rightarrow> (Inr (), emit (Mkdir_parents p) (w\<lparr>fs := f\<rparr>)))"

definition shutil_rmtree :: "string \<Rightarrow> unit action" where
  "shutil_rmtree s w =
     (case (if s = '''' then Inl FileNotFoundError else rmtree (resolve (cwd w) s) (fs w)) of
        Inl e \<Rightarrow> (Inl (OSError e), emit (Rmtree s) w)
      | Inr f \<Rightarrow> (Inr (), emit (Rmtree s) (w\<lparr>fs := f\<rparr>)))"

definition os_makedirs :: "string \<Rightarrow> unit action" where
  "os_makedirs s w =
     (case os_makedirs_fs (cwd w) s (fs w) of
        (Some e, f) \<Rightarrow> (Inl (OSError e), emit (Makedirs s) (w\<lparr>fs := f\<rparr>))
      | (None, f) \<Rightarrow> (Inr (), emit (Makedirs s) (w\<lparr>fs := f\<rparr>)))"

definition subprocess_run :: "system \<Rightarrow> string list \<Rightarrow> completed_process action" where
  "subprocess_run sys argv w =
     (case sys argv (fs w) of
        NotFound \<Rightarrow> (Inl (OSError FileNotFoundError), emit (Run argv NotFound) w)
      | Ran result f \<Rightarrow> (Inr result, emit (Run argv (Ran result f)) (w\<lparr>fs := f\<rparr>)))"

subsection \<open>The script\<close>

text \<open>
  The loop of \<^verbatim>\<open>generate_icon\<close> over the size table. Its result is \<open>Some b\<close> when the body
  executed \<^verbatim>\<open>return b\<close>, and \<open>None\<close> when the loop ran to its end.
\<close>

definition sips_argv :: "string \<Rightarrow> int \<times> string \<Rightarrow> string list" where
  "sips_argv input_image spec =
     (case spec of (size', filename) \<Rightarrow>
        [''sips'', ''-z'', str_int size', str_int size', input_image, ''--out'',
         os_path_join iconset_name filename])"

definition failed_to_generate :: "string \<Rightarrow> string \<Rightarrow> string" where
  "failed_to_generate filename diagnostic =
     cross_mark @ '' Failed to generate '' @ filename @ '': '' @ diagnostic"

fun generate_sizes :: "system \<Rightarrow> string \<Rightarrow> (int \<times> string) list \<Rightarrow> bool option action" where
  "generate_sizes sys input_image [] = return None"
| "generate_sizes sys input_image ((size', filename) # rest) =
     and_then (subprocess_run sys (sips_argv input_image (size', filename))) (\<lambda>result.
       if returncode result \<noteq> 0 then
         and_then (print (failed_to_generate filename (stderr result))) (\<lambda>_.
         and_then (shutil_rmtree iconset_name) (\<lambda>_.
         return (Some False)))
       else generate_sizes sys input_image rest)"

definition iconutil_argv :: "pure_path \<Rightarrow> string list" where
  "iconutil_argv output_path =
     [''iconutil'', ''-c'', ''icns'', iconset_name, ''-o'', str_path output_path]"

definition generation_failed :: "string \<Rightarrow> string" where
  "generation_failed diagnostic = cross_mark @ '' Icon generation failed: '' @ diagnostic"

definition generated_successfully :: string where
  "generated_successfully = check_mark @ '' Icon generated successfully!''"

definition output_file_line :: "pure_path \<Rightarrow> string" where
  "output_file_line output_path = package @ '' Output file: '' @ str_path output_path"

definition generate_icon :: "system \<Rightarrow> string \<Rightarrow> string \<Rightarrow> bool action" where
  "generate_icon sys input_image output_icns =
     (let output_path = Path output_icns in
      and_then (Path_mkdir (parent output_path)) (\<lambda>_.
      and_then (\<lambda>w. if os_path_exists iconset_name w then shutil_rmtree iconset_name w
                    else return () w) (\<lambda>_.
      and_then (os_makedirs iconset_name) (\<lambda>_.
      and_then (print (artist_palette @ '' Generating app icon...'')) (\<lambda>_.
      and_then (print (inbox_tray @ '' Input image: '' @ input_image)) (\<lambda>_.
      and_then (print (triangular_ruler @ '' Generating icon sizes...'')) (\<lambda>_.
      and_then (generate_sizes sys input_image icon_sizes) (\<lambda>returned.
        case returned of
          Some b \<Rightarrow> return b
        | None \<Rightarrow>
            and_then (print (check_mark @ '' Generated all icon sizes'')) (\<lambda>_.
            and_then (print (hammer @ '' Generating .icns file...'')) (\<lambda>_.
            and_then (subprocess_run sys (iconutil_argv output_path)) (\<lambda>result.
            and_then (shutil_rmtree iconset_name) (\<lambda>_.
              if returncode result \<noteq> 0 then
                and_then (print (generation_failed (stderr result))) (\<lambda>_.
                return False)
              else
                and_then (print generated_successfully) (\<lambda>_.
                and_then (print (output_file_line output_path)) (\<lambda>_.
                return True))))))))))))))"







subsection \<open>Traces\<close>

text \<open>
  \<open>since w w'\<close> is what a run from \<open>w\<close> to \<open>w'\<close> added to the trace, \<open>runs\<close> its child
  processes in order, \<open>status\<close> the exit status of one of them. \<open>extends w w' es\<close> says that
  the run added exactly \<open>es\<close> and stayed in its directory. \<open>ok_runs\<close> says that a list of
  events is one successful call of the scaling utility per entry of a list of sizes, in
  order.
\<close>

definition since :: "world \<Rightarrow> world \<Rightarrow> event list" where
  "since w w' = drop (length (trace w)) (trace w')"

fun runs :: "event list \<Rightarrow> (string list \<times> launch) list" where
  "runs [] = []"
| "runs (Run argv l # es) = (argv, l) # runs es"
| "runs (e # es) = runs es"

definition status :: "launch \<Rightarrow> int option" where
  "status l = (case l of NotFound \<Rightarrow> None | Ran result f \<Rightarrow> Some (returncode result))"

definition extends :: "world \<Rightarrow> world \<Rightarrow> event list \<Rightarrow> bool" where
  "extends w w' es = (cwd w' = cwd w \<and> trace w' = trace w @ es)"

fun ok_runs :: "string \<Rightarrow> (int \<times> string) list \<Rightarrow> event list \<Rightarrow> bool" where
  "ok_runs input_image [] es = (es = [])"
| "ok_runs input_image (spec # specs) es =
     (case es of
        Run argv (Ran result f) # es' \<Rightarrow>
          argv = sips_argv input_image spec \<and> returncode result = 0 \<and>
          ok_runs input_image specs es'
      | _ \<Rightarrow> False)"

text \<open>
  The events a run is made of: of a failed rendition (the call, the message, the cleanup),
  of the progress lines before the loop, of the compiling step, and of the final messages.
\<close>

definition loop_failure ::
  "string \<Rightarrow> int \<times> string \<Rightarrow> completed_process \<Rightarrow> filesystem \<Rightarrow> event list" where
  "loop_failure input_image spec result f =
     [Run (sips_argv input_image spec) (Ran result f),
      Print (failed_to_generate (snd spec) (stderr result)),
      Rmtree iconset_name]"

definition banner :: "string \<Rightarrow> event list" where
  "banner input_image =
     [Print (artist_palette @ '' Generating app icon...''),
      Print (inbox_tray @ '' Input image: '' @ input_image),
      Print (triangular_ruler @ '' Generating icon sizes...'')]"

definition compiling :: "system \<Rightarrow> pure_path \<Rightarrow> filesystem \<Rightarrow> event list" where
  "compiling sys output_path f =
     [Print (check_mark @ '' Generated all icon sizes''),
      Print (hammer @ '' Generating .icns file...''),
      Run (iconutil_argv output_path) (sys (iconutil_argv output_path) f)]"

definition verdict :: "pure_path \<Rightarrow> completed_process \<Rightarrow> event list" where
  "verdict output_path result =
     (if returncode result \<noteq> 0 then [Print (generation_failed (stderr result))]
      else [Print generated_successfully, Print (output_file_line output_path)])"

subsection \<open>The three phases of \<^verbatim>\<open>generate_icon\<close>\<close>

text \<open>
  For the proofs the body of \<^verbatim>\<open>generate_icon\<close> is cut in three: the statements before
  the loop (\<open>prepare\<close>), the loop (\<open>generate_sizes\<close>), and the statements after it
  (\<open>compile\<close>). \<open>generate_icon_phases\<close> below shows that the function is their sequence.
\<close>

definition prepare :: "string \<Rightarrow> pure_path \<Rightarrow> unit action" where
  "prepare input_image output_path =
     and_then (Path_mkdir (parent output_path)) (\<lambda>_.
     and_then (\<lambda>w. if os_path_exists iconset_name w then shutil_rmtree iconset_name w
                   else return () w) (\<lambda>_.
     and_then (os_makedirs iconset_name) (\<lambda>_.
     and_then (print (artist_palette @ '' Generating app icon...'')) (\<lambda>_.
     and_then (print (inbox_tray @ '' Input image: '' @ input_image)) (\<lambda>_.
     print (triangular_ruler @ '' Generating icon sizes...''))))))"

definition compile :: "system \<Rightarrow> pure_path \<Rightarrow> bool action" where
  "compile sys output_path =
     and_then (print (check_mark @ '' Generated all icon sizes'')) (\<lambda>_.
     and_then (print (hammer @ '' Generating .icns file...'')) (\<lambda>_.
     and_then (subprocess_run sys (iconutil_argv output_path)) (\<lambda>result.
     and_then (shutil_rmtree iconset_name) (\<lambda>_.
       if returncode result \<noteq> 0 then
         and_then (print (generation_failed (stderr result))) (\<lambda>_.
         return False)
       else
         and_then (print generated_successfully) (\<lambda>_.
         and_then (print (output_file_line output_path)) (\<lambda>_.
         return True))))))"

subsection \<open>Utilities that leave a directory alone\<close>


subsection \<open>A sample world\<close>

text \<open>
  A concrete world to run the script in: a directory \<^verbatim>\<open>/home\<close> holding the picture and a
  stale working directory from an earlier run. The sample utilities write the file they are
  asked for and exit with status 0 (with status 1 when a directory stands at that path),
  except that the scaling utility fails on the 64-pixel rendition when \<open>sips_64\<close> is not
  0, and the compiling utility fails when \<open>iconutil\<close> is not 0, each with that exit
  status. Any other program cannot be started.
\<close>

definition sample_world :: world where
  "sample_world =
     \<lparr>fs = [[''home''] \<mapsto> Dir,
            [''home'', ''pic.png''] \<mapsto> File,
            [''home'', ''VeloxClip.iconset''] \<mapsto> Dir,
            [''home'', ''VeloxClip.iconset'', ''stale.png''] \<mapsto> File],
      cwd = [''home''], trace = []\<rparr>"

definition sample_write :: "string list \<Rightarrow> filesystem \<Rightarrow> launch" where
  "sample_write names f =
     (let p = resolve [''home''] (concat names)
      in if lookup f p = Some Dir then Ran \<lparr>returncode = 1, stderr = ''is a directory''\<rparr> f
         else Ran \<lparr>returncode = 0, stderr = ''''\<rparr> (f(p \<mapsto> File)))"

definition sample_system :: "int \<Rightarrow> int \<Rightarrow> system" where
  "sample_system sips_64 iconutil argv f =
     (if take 1 argv = [''sips''] then
        (if take 1 (drop 2 argv) = [''64''] \<and> sips_64 \<noteq> 0
         then Ran \<lparr>returncode = sips_64, stderr = ''cannot scale''\<rparr> f
         else sample_write (take 1 (drop 6 argv)) f)
      else if take 1 argv = [''iconutil''] then
        (if iconutil \<noteq> 0
         then Ran \<lparr>returncode = iconutil, stderr = ''cannot compile''\<rparr> f
         else sample_write (take 1 (drop 5 argv)) f)
      else NotFound)"

definition sample_run :: "int \<Rightarrow> int \<Rightarrow> (exception + bool) \<times> world" where
  "sample_run sips_64 iconutil =
     generate_icon (sample_system sips_64 iconutil) ''pic.png'' ''out/AppIcon.icns'' sample_world"

section \<open>Properties\<close>

subsection \<open>The size table\<close>

lemma str_int_sizes [simp]:
  "str_int 16 = ''16''" "str_int 32 = ''32''" "str_int 64 = ''64''" "str_int 128 = ''128''"
  "str_int 256 = ''256''" "str_int 512 = ''512''" "str_int 1024 = ''1024''"
  by (simp_all add: str_int_def str_nat.simps)

text \<open>
  Claim C3. The table has ten entries; their pixel dimensions are, in order, 16, 32, 32, 64,
  128, 256, 256, 512, 512, 1024, their file names are the ten names listed, and every name
  encodes the nominal size with the optional \<^verbatim>\<open>@2x\<close> suffix: the table is the list of the
  renditions at scale 1 and scale 2 of the nominal sizes 16, 32, 128, 256 and 512.
\<close>

theorem icon_sizes_table:
  "length icon_sizes = 10 \<and>
   map fst icon_sizes = [16, 32, 32, 64, 128, 256, 256, 512, 512, 1024] \<and>
   map snd icon_sizes =
     [''icon_16x16.png'', ''icon_16x16@2x.png'', ''icon_32x32.png'', ''icon_32x32@2x.png'',
      ''icon_128x128.png'', ''icon_128x128@2x.png'', ''icon_256x256.png'',
      ''icon_256x256@2x.png'', ''icon_512x512.png'', ''icon_512x512@2x.png''] \<and>
   icon_sizes = concat (map (\<lambda>n. [rendition n 1, rendition n 2]) [16, 32, 128, 256, 512])"
  by (simp add: icon_sizes_def rendition_def rendition_name_def)

text \<open>
  Claim C9. The ten file names of the table are pairwise distinct, and so are the ten
  \<^verbatim>\<open>--out\<close> arguments handed to the scaling utility (argument 6 of each vector) and the
  nodes they resolve to; each of these nodes lies directly inside the working directory.
  No rendition is written over an earlier one.
\<close>

theorem icon_filenames_distinct:
  "distinct (map snd icon_sizes) \<and>
   distinct (map (\<lambda>spec. sips_argv input_image spec ! 6) icon_sizes) \<and>
   distinct (map (\<lambda>spec. resolve c (sips_argv input_image spec ! 6)) icon_sizes) \<and>
   map (\<lambda>spec. resolve c (sips_argv input_image spec ! 6)) icon_sizes =
     map (\<lambda>spec. resolve c iconset_name @ [snd spec]) icon_sizes"
  by (simp add: icon_sizes_def sips_argv_def os_path_join_def iconset_name_def resolve_def
      locate_def Path_def)

subsection \<open>What one step adds to the trace\<close>

text \<open>Each primitive of the script adds its own event and changes nothing else of the trace.\<close>

lemma extends_since: "extends w w' es \<Longrightarrow> since w w' = es"
  by (simp add: extends_def since_def)

lemma extends_trans: "extends w w1 es1 \<Longrightarrow> extends w1 w2 es2 \<Longrightarrow> extends w w2 (es1 @ es2)"
  by (simp add: extends_def)

lemma extends_refl: "extends w w []"
  by (simp add: extends_def)

lemma runs_append: "runs (es @ es') = runs es @ runs es'"
  by (induction es rule: runs.induct) simp_all

lemma ok_runs_runs:
  "ok_runs input_image specs es \<Longrightarrow>
   map fst (runs es) = map (sips_argv input_image) specs \<and>
   map (status \<circ> snd) (runs es) = replicate (length specs) (Some 0)"
proof (induction specs arbitrary: es)
  case Nil
  then show ?case by simp
next
  case (Cons spec specs)
  then show ?case
    by (auto simp: status_def split: list.splits event.splits launch.splits)
qed

lemma subprocess_run_cases:
  assumes "subprocess_run sys argv w = (r, w')"
  shows "extends w w' [Run argv (sys argv (fs w))] \<and>
         (case sys argv (fs w) of
            NotFound \<Rightarrow> r = Inl (OSError FileNotFoundError) \<and> fs w' = fs w
          | Ran result f \<Rightarrow> r = Inr result \<and> fs w' = f)"
  using assms by (auto simp: subprocess_run_def emit_def extends_def split: launch.splits)

lemma iconset_nonempty [simp]: "iconset_name \<noteq> []"
  by (simp add: iconset_name_def)

lemma resolve_iconset [simp]: "resolve c iconset_name = c @ [iconset_name]"
  by (simp add: resolve_def locate_def Path_def iconset_name_def)

lemma shutil_rmtree_cases:
  assumes "shutil_rmtree iconset_name w = (r, w')"
  shows "extends w w' [Rmtree iconset_name] \<and>
         (case rmtree (cwd w @ [iconset_name]) (fs w) of
            Inl e \<Rightarrow> r = Inl (OSError e) \<and> fs w' = fs w
          | Inr f \<Rightarrow> r = Inr () \<and> fs w' = f)"
  using assms by (auto simp: shutil_rmtree_def emit_def extends_def split: sum.splits)

lemma and_then_cases:
  assumes "and_then m k w = (r, w')"
  obtains (raised) e where "m w = (Inl e, w')" "r = Inl e"
        | (went_on) x w1 where "m w = (Inr x, w1)" "k x w1 = (r, w')"
  using assms by (auto simp: and_then_def split: prod.splits sum.splits)

lemma and_then_print [simp]: "and_then (print s) k w = k () (emit (Print s) w)"
  by (simp add: and_then_def print_def)

lemma and_then_return [simp]: "and_then (return x) k w = k x w"
  by (simp add: and_then_def return_def)

lemma generate_sizes_shape:
  "generate_sizes sys input_image specs w = (r, w') \<Longrightarrow>
   \<exists>n es tl. n \<le> length specs \<and> extends w w' (es @ tl) \<and> ok_runs input_image (take n specs) es \<and>
     ((n = length specs \<and> tl = [] \<and> r = Inr None) \<or>
      (n < length specs \<and> tl = [Run (sips_argv input_image (specs ! n)) NotFound] \<and>
       r = Inl (OSError FileNotFoundError)) \<or>
      (n < length specs \<and>
       (\<exists>result f. returncode result \<noteq> 0 \<and> tl = loop_failure input_image (specs ! n) result f \<and>
          (case rmtree (cwd w @ [iconset_name]) f of
             Inl e \<Rightarrow> r = Inl (OSError e) \<and> fs w' = f
           | Inr f' \<Rightarrow> r = Inr (Some False) \<and> fs w' = f'))))"
proof (induction specs arbitrary: w)
  case Nil
  then show ?case
    by (auto simp: return_def extends_def)
next
  case (Cons spec specs)
  obtain size' filename where spec: "spec = (size', filename)" by (cases spec)
  from Cons.prems spec
  have run: "and_then (subprocess_run sys (sips_argv input_image spec)) (\<lambda>result.
       if returncode result \<noteq> 0 then
         and_then (print (failed_to_generate filename (stderr result))) (\<lambda>_.
         and_then (shutil_rmtree iconset_name) (\<lambda>_.
         return (Some False)))
       else generate_sizes sys input_image specs) w = (r, w')"
    by simp
  let ?argv = "sips_argv input_image spec"
  from run show ?case
  proof (cases rule: and_then_cases)
    case (raised e)
    from subprocess_run_cases[OF raised(1)] raised(2)
    have "extends w w' ([] @ [Run ?argv NotFound])" "r = Inl (OSError FileNotFoundError)"
      by (auto split: launch.splits)
    then show ?thesis
      by (intro exI[of _ 0] exI[of _ "[]"] exI[of _ "[Run ?argv NotFound]"]) simp
  next
    case (went_on result w1)
    from subprocess_run_cases[OF went_on(1)]
    have ran: "sys ?argv (fs w) = Ran result (fs w1)" and ext1: "extends w w1 [Run ?argv (Ran result (fs w1))]"
      by (auto split: launch.splits)
    show ?thesis
    proof (cases "returncode result = 0")
      case True
      with went_on(2) have "generate_sizes sys input_image specs w1 = (r, w')" by simp
      from Cons.IH[OF this] obtain n es tl where
        n: "n \<le> length specs" and ext: "extends w1 w' (es @ tl)"
        and ok: "ok_runs input_image (take n specs) es"
        and alt: "(n = length specs \<and> tl = [] \<and> r = Inr None) \<or>
      (n < length specs \<and> tl = [Run (sips_argv input_image (specs ! n)) NotFound] \<and>
       r = Inl (OSError FileNotFoundError)) \<or>
      (n < length specs \<and>
       (\<exists>result f. returncode result \<noteq> 0 \<and> tl = loop_failure input_image (specs ! n) result f \<and>
          (case rmtree (cwd w1 @ [iconset_name]) f of
             Inl e \<Rightarrow> r = Inl (OSError e) \<and> fs w' = f
           | Inr f' \<Rightarrow> r = Inr (Some False) \<and> fs w' = f')))"
        by blast
      have c: "cwd w1 = cwd w" using ext1 by (simp add: extends_def)
      have "extends w w' ((Run ?argv (Ran result (fs w1)) # es) @ tl)"
        using extends_trans[OF ext1 ext] by simp
      moreover have "ok_runs input_image (take (Suc n) (spec # specs)) (Run ?argv (Ran result (fs w1)) # es)"
        using ok True by simp
      ultimately show ?thesis
        using n alt unfolding c
        by (intro exI[of _ "Suc n"] exI[of _ "Run ?argv (Ran result (fs w1)) # es"] exI[of _ tl]) simp
    next
      case False
      let ?w2 = "emit (Print (failed_to_generate filename (stderr result))) w1"
      obtain r2 w3 where rm: "shutil_rmtree iconset_name ?w2 = (r2, w3)" by (cases "shutil_rmtree iconset_name ?w2")
      from shutil_rmtree_cases[OF rm] have
        ext3: "extends ?w2 w3 [Rmtree iconset_name]" and
        res: "(case rmtree (cwd ?w2 @ [iconset_name]) (fs ?w2) of
            Inl e \<Rightarrow> r2 = Inl (OSError e) \<and> fs w3 = fs ?w2
          | Inr f \<Rightarrow> r2 = Inr () \<and> fs w3 = f)"
        by simp_all
      have ext2: "extends w1 ?w2 [Print (failed_to_generate filename (stderr result))]" and fs2: "fs ?w2 = fs w1"
        and c2: "cwd ?w2 = cwd w"
        using ext1 by (simp_all add: emit_def extends_def)
      from went_on(2) False
      have "and_then (shutil_rmtree iconset_name) (\<lambda>_. return (Some False)) ?w2 = (r, w')"
        by simp
      with rm have fin: "(case r2 of Inl e \<Rightarrow> (Inl e, w3) | Inr _ \<Rightarrow> (Inr (Some False), w3)) = (r, w')"
        by (simp add: and_then_def return_def split: sum.splits)
      then have w3: "w3 = w'" by (auto split: sum.splits)
      have "extends w w' ([] @ loop_failure input_image spec result (fs w1))"
        using extends_trans[OF extends_trans[OF ext1 ext2] ext3] w3 spec
        by (simp add: loop_failure_def)
      moreover have "(case rmtree (cwd w @ [iconset_name]) (fs w1) of
             Inl e \<Rightarrow> r = Inl (OSError e) \<and> fs w' = fs w1
           | Inr f' \<Rightarrow> r = Inr (Some False) \<and> fs w' = f')"
        using res fin w3 unfolding fs2 c2 by (auto split: sum.splits)
      ultimately show ?thesis
        using False 
        by (intro exI[of _ 0] exI[of _ "[]"] exI[of _ "loop_failure input_image spec result (fs w1)"]) auto
    qed
  qed
qed

subsection \<open>The course of a run\<close>

text \<open>
  \<^verbatim>\<open>generate_icon\<close> is the sequence of its three phases. \<open>generate_icon_course\<close> lists the
  ways a run can go: an exception before the loop, a scaling utility that cannot be started,
  a failed rendition, or ten renditions followed by the compiling step.
\<close>

lemma and_then_assoc: "and_then (and_then m k) h = and_then m (\<lambda>x. and_then (k x) h)"
  by (rule ext) (simp add: and_then_def split: prod.splits sum.splits)

lemma generate_icon_phases:
  "generate_icon sys input_image output_icns =
     and_then (prepare input_image (Path output_icns)) (\<lambda>_.
     and_then (generate_sizes sys input_image icon_sizes) (\<lambda>returned.
       case returned of
         Some b \<Rightarrow> return b
       | None \<Rightarrow> compile sys (Path output_icns)))"
  unfolding generate_icon_def prepare_def compile_def Let_def and_then_assoc
  by (rule refl)

lemma Path_mkdir_cases:
  assumes "Path_mkdir p w = (r, w1)"
  shows "extends w w1 [Mkdir_parents p] \<and> fs w1 = snd (path_mkdir (cwd w) p (fs w)) \<and>
         r = (case fst (path_mkdir (cwd w) p (fs w)) of None \<Rightarrow> Inr () | Some e \<Rightarrow> Inl (OSError e))"
  using assms
  by (auto simp: Path_mkdir_def emit_def extends_def split: prod.splits option.splits)

lemma makedirs_split_iconset: "makedirs_split iconset_name = ('''', iconset_name)"
  by (simp add: makedirs_split_def os_path_split_def iconset_name_def)

lemma os_makedirs_fs_iconset:
  "os_makedirs_fs c iconset_name f =
     (case os_mkdir (c @ [iconset_name]) f of Inl e \<Rightarrow> (Some e, f) | Inr g \<Rightarrow> (None, g))"
  by (subst os_makedirs_fs.simps) (simp add: makedirs_split_iconset)

lemma os_makedirs_cases:
  assumes "os_makedirs iconset_name w = (r, w1)"
  shows "extends w w1 [Makedirs iconset_name] \<and>
         (case os_mkdir (cwd w @ [iconset_name]) (fs w) of
            Inl e \<Rightarrow> r = Inl (OSError e) \<and> fs w1 = fs w
          | Inr g \<Rightarrow> r = Inr () \<and> fs w1 = g)"
  using assms
  by (auto simp: os_makedirs_def os_makedirs_fs_iconset emit_def extends_def split: sum.splits)

lemma prepare_events:
  assumes "prepare input_image output_path w = (r, w1)"
  shows "\<exists>pre. extends w w1 pre \<and> runs pre = []"
proof -
  let ?m = "Mkdir_parents (parent output_path)"
  from assms[unfolded prepare_def] show ?thesis
  proof (cases rule: and_then_cases)
    case (raised e)
    then show ?thesis
      using Path_mkdir_cases[OF raised(1)] by (intro exI[of _ "[?m]"]) simp
  next
    case (went_on x wa)
    note a = Path_mkdir_cases[OF went_on(1)]
    from went_on(2) show ?thesis
    proof (cases rule: and_then_cases)
      case (raised e)
      then have "shutil_rmtree iconset_name wa = (Inl e, w1)"
        by (auto simp: return_def split: if_splits)
      from shutil_rmtree_cases[OF this] a
      have "extends w w1 ([?m] @ [Rmtree iconset_name])"
        by (auto simp: extends_def)
      then show ?thesis
        by (intro exI[of _ "[?m] @ [Rmtree iconset_name]"]) simp
    next
      case (went_on y wb)
      have "\<exists>es. extends wa wb es \<and> runs es = []"
      proof (cases "os_path_exists iconset_name wa")
        case True
        with went_on(1) have "shutil_rmtree iconset_name wa = (Inr y, wb)" by simp
        from shutil_rmtree_cases[OF this] show ?thesis
          by (intro exI[of _ "[Rmtree iconset_name]"]) simp
      next
        case False
        with went_on(1) have "wb = wa" by (simp add: return_def)
        then show ?thesis by (intro exI[of _ "[]"]) (simp add: extends_refl)
      qed
      then obtain es where es: "extends wa wb es" "runs es = []" by blast
      from went_on(2) show ?thesis
      proof (cases rule: and_then_cases)
        case (raised e)
        from os_makedirs_cases[OF raised(1)] have "extends wb w1 [Makedirs iconset_name]" by simp
        with a es have "extends w w1 ([?m] @ es @ [Makedirs iconset_name])"
          by (auto simp: extends_def)
        then show ?thesis using es(2)
          by (intro exI[of _ "[?m] @ es @ [Makedirs iconset_name]"]) (simp add: runs_append)
      next
        case (went_on z wc)
        from os_makedirs_cases[OF went_on(1)] have c: "extends wb wc [Makedirs iconset_name]" by simp
        from went_on(2) have "extends wc w1 (banner input_image)"
          by (auto simp: print_def emit_def extends_def banner_def)
        with a es c have "extends w w1 ([?m] @ es @ [Makedirs iconset_name] @ banner input_image)"
          by (auto simp: extends_def)
        then show ?thesis using es(2)
          by (intro exI[of _ "[?m] @ es @ [Makedirs iconset_name] @ banner input_image"])
             (simp add: runs_append banner_def)
      qed
    qed
  qed
qed

lemma prepare_returned:
  assumes "prepare input_image output_path w = (Inr (), w1)"
  shows "fst (path_mkdir (cwd w) (parent output_path) (fs w)) = None \<and>
         (let f1 = snd (path_mkdir (cwd w) (parent output_path) (fs w)); d = cwd w @ [iconset_name]
          in lookup f1 d \<noteq> Some File \<and>
             extends w w1
               (Mkdir_parents (parent output_path) #
                (if lookup f1 d = None then [] else [Rmtree iconset_name]) @
                Makedirs iconset_name # banner input_image) \<and>
             os_mkdir d (if lookup f1 d = None then f1 else remove_tree d f1) = Inr (fs w1))"
proof -
  let ?f1 = "snd (path_mkdir (cwd w) (parent output_path) (fs w))"
  let ?d = "cwd w @ [iconset_name]"
  from assms[unfolded prepare_def] show ?thesis
  proof (cases rule: and_then_cases)
    case (went_on x wa)
    from Path_mkdir_cases[OF went_on(1)]
    have a: "extends w wa [Mkdir_parents (parent output_path)]" "fs wa = ?f1"
      and ok: "fst (path_mkdir (cwd w) (parent output_path) (fs w)) = None"
      by (auto split: option.splits)
    have ca: "cwd wa = cwd w" using a(1) by (simp add: extends_def)
    from went_on(2) show ?thesis
    proof (cases rule: and_then_cases)
      case (went_on y wb)
      have b: "lookup ?f1 ?d \<noteq> Some File \<and>
               extends wa wb (if lookup ?f1 ?d = None then [] else [Rmtree iconset_name]) \<and>
               fs wb = (if lookup ?f1 ?d = None then ?f1 else remove_tree ?d ?f1)"
      proof (cases "os_path_exists iconset_name wa")
        case True
        with went_on(1) have "shutil_rmtree iconset_name wa = (Inr y, wb)" by simp
        from shutil_rmtree_cases[OF this] True show ?thesis
          unfolding ca a(2)
          by (auto simp: os_path_exists_def rmtree_def ca a(2) split: sum.splits option.splits node.splits)
      next
        case False
        with went_on(1) have "wb = wa" by (simp add: return_def)
        with False show ?thesis
          by (auto simp: os_path_exists_def ca a(2) extends_refl)
      qed
      have cb: "cwd wb = cwd w" using b ca by (simp add: extends_def)
      from went_on(2) show ?thesis
      proof (cases rule: and_then_cases)
        case (went_on z wc)
        from os_makedirs_cases[OF went_on(1)]
        have c: "extends wb wc [Makedirs iconset_name]" "os_mkdir ?d (fs wb) = Inr (fs wc)"
          unfolding cb by (auto split: sum.splits)
        from went_on(2) have e: "extends wc w1 (banner input_image)" "fs w1 = fs wc"
          by (auto simp: print_def emit_def extends_def banner_def)
        have "extends w w1
               (Mkdir_parents (parent output_path) #
                (if lookup ?f1 ?d = None then [] else [Rmtree iconset_name]) @
                Makedirs iconset_name # banner input_image)"
          using a(1) b c(1) e(1) by (auto simp: extends_def)
        then show ?thesis
          using ok b c(2) e(2) by (simp add: Let_def)
      qed simp
    qed simp
  qed simp
qed

lemma compile_cases:
  assumes "compile sys output_path w = (r, w')"
  shows "\<exists>tl. extends w w' (compiling sys output_path (fs w) @ tl) \<and> runs tl = [] \<and>
     (case sys (iconutil_argv output_path) (fs w) of
        NotFound \<Rightarrow> r = Inl (OSError FileNotFoundError) \<and> tl = [] \<and> fs w' = fs w
      | Ran result f \<Rightarrow>
          (case rmtree (cwd w @ [iconset_name]) f of
             Inl e \<Rightarrow> r = Inl (OSError e) \<and> tl = [Rmtree iconset_name] \<and> fs w' = f
           | Inr f' \<Rightarrow> r = Inr (returncode result = 0) \<and>
                       tl = Rmtree iconset_name # verdict output_path result \<and> fs w' = f'))"
proof -
  let ?w2 = "emit (Print (hammer @ '' Generating .icns file...''))
              (emit (Print (check_mark @ '' Generated all icon sizes'')) w)"
  let ?argv = "iconutil_argv output_path"
  have w2: "extends w ?w2 [Print (check_mark @ '' Generated all icon sizes''),
      Print (hammer @ '' Generating .icns file...'')]" "fs ?w2 = fs w" "cwd ?w2 = cwd w"
    by (simp_all add: emit_def extends_def)
  from assms have "and_then (subprocess_run sys ?argv) (\<lambda>result.
     and_then (shutil_rmtree iconset_name) (\<lambda>_.
       if returncode result \<noteq> 0 then
         and_then (print (generation_failed (stderr result))) (\<lambda>_.
         return False)
       else
         and_then (print generated_successfully) (\<lambda>_.
         and_then (print (output_file_line output_path)) (\<lambda>_.
         return True)))) ?w2 = (r, w')"
    by (simp add: compile_def)
  then show ?thesis
  proof (cases rule: and_then_cases)
    case (raised e)
    from subprocess_run_cases[OF raised(1)] raised(2) w2
    show ?thesis
      by (intro exI[of _ "[]"]) (auto simp: extends_def compiling_def split: launch.splits)
  next
    case (went_on result w3)
    from subprocess_run_cases[OF went_on(1)]
    have ran: "sys ?argv (fs w) = Ran result (fs w3)"
      and e3: "extends ?w2 w3 [Run ?argv (sys ?argv (fs w))]"
      unfolding w2(2) by (auto split: launch.splits)
    have e3': "extends w w3 (compiling sys output_path (fs w))" and c3: "cwd w3 = cwd w"
      using w2 e3 by (auto simp: extends_def compiling_def)
    from went_on(2) show ?thesis
    proof (cases rule: and_then_cases)
      case (raised e)
      from shutil_rmtree_cases[OF raised(1)] raised(2) e3' ran
      show ?thesis
        unfolding c3
        by (intro exI[of _ "[Rmtree iconset_name]"]) (auto simp: extends_def split: sum.splits)
    next
      case (went_on u w4)
      from shutil_rmtree_cases[OF went_on(1)]
      have e4: "extends w3 w4 [Rmtree iconset_name]"
        and rm: "rmtree (cwd w @ [iconset_name]) (fs w3) = Inr (fs w4)"
        unfolding c3 by (auto split: sum.splits)
      from went_on(2) have fin: "r = Inr (returncode result = 0)" "fs w' = fs w4"
        "extends w4 w' (verdict output_path result)"
        by (auto simp: print_def emit_def return_def extends_def verdict_def split: if_splits)
      show ?thesis
        using e3' e4 fin ran rm
        by (intro exI[of _ "Rmtree iconset_name # verdict output_path result"])
           (auto simp: extends_def verdict_def)
    qed
  qed
qed

lemma generate_sizes_course:
  assumes "generate_sizes sys input_image specs w = (r, w')"
  obtains
    (completed) es where
      "r = Inr None" "extends w w' es" "ok_runs input_image specs es"
  | (not_found) n es where
      "n < length specs" "ok_runs input_image (take n specs) es"
      "extends w w' (es @ [Run (sips_argv input_image (specs ! n)) NotFound])"
      "r = Inl (OSError FileNotFoundError)"
  | (failed) n es result f where
      "n < length specs" "ok_runs input_image (take n specs) es" "returncode result \<noteq> 0"
      "extends w w' (es @ loop_failure input_image (specs ! n) result f)"
      "case rmtree (cwd w @ [iconset_name]) f of
         Inl e \<Rightarrow> r = Inl (OSError e) \<and> fs w' = f
       | Inr f' \<Rightarrow> r = Inr (Some False) \<and> fs w' = f'"
proof -
  from generate_sizes_shape[OF assms] obtain n es tl where
    n: "n \<le> length specs" and ext: "extends w w' (es @ tl)"
    and ok: "ok_runs input_image (take n specs) es"
    and alt: "(n = length specs \<and> tl = [] \<and> r = Inr None) \<or>
      (n < length specs \<and> tl = [Run (sips_argv input_image (specs ! n)) NotFound] \<and>
       r = Inl (OSError FileNotFoundError)) \<or>
      (n < length specs \<and>
       (\<exists>result f. returncode result \<noteq> 0 \<and> tl = loop_failure input_image (specs ! n) result f \<and>
          (case rmtree (cwd w @ [iconset_name]) f of
             Inl e \<Rightarrow> r = Inl (OSError e) \<and> fs w' = f
           | Inr f' \<Rightarrow> r = Inr (Some False) \<and> fs w' = f')))"
    by blast
  from alt consider
      (a) "n = length specs" "tl = []" "r = Inr None"
    | (b) "n < length specs" "tl = [Run (sips_argv input_image (specs ! n)) NotFound]"
          "r = Inl (OSError FileNotFoundError)"
    | (c) result f where "n < length specs" "returncode result \<noteq> 0"
          "tl = loop_failure input_image (specs ! n) result f"
          "case rmtree (cwd w @ [iconset_name]) f of
             Inl e \<Rightarrow> r = Inl (OSError e) \<and> fs w' = f
           | Inr f' \<Rightarrow> r = Inr (Some False) \<and> fs w' = f'"
    by blast
  then show thesis
  proof cases
    case a
    with ext ok show thesis by (intro completed[of es]) simp_all
  next
    case b
    with ext ok show thesis by (intro not_found[of n es]) simp_all
  next
    case c
    with ext ok show thesis by (intro failed[of n es result f]) simp_all
  qed
qed

lemma generate_icon_course:
  assumes "generate_icon sys input_image output_icns w = (r, w')"
  obtains
    (prepare_raised) e pre where
      "r = Inl e" "extends w w' pre" "runs pre = []"
  | (sips_not_found) pre n es where
      "runs pre = []" "n < length icon_sizes" "ok_runs input_image (take n icon_sizes) es"
      "extends w w' (pre @ es @ [Run (sips_argv input_image (icon_sizes ! n)) NotFound])"
      "r = Inl (OSError FileNotFoundError)"
  | (sips_failed) pre n es result f where
      "runs pre = []" "n < length icon_sizes" "ok_runs input_image (take n icon_sizes) es"
      "returncode result \<noteq> 0"
      "extends w w' (pre @ es @ loop_failure input_image (icon_sizes ! n) result f)"
      "case rmtree (cwd w @ [iconset_name]) f of
         Inl e \<Rightarrow> r = Inl (OSError e) \<and> fs w' = f
       | Inr f' \<Rightarrow> r = Inr False \<and> fs w' = f'"
  | (compiled) pre es f2 tl where
      "runs pre = []" "ok_runs input_image icon_sizes es" "runs tl = []"
      "extends w w' (pre @ es @ compiling sys (Path output_icns) f2 @ tl)"
      "case sys (iconutil_argv (Path output_icns)) f2 of
         NotFound \<Rightarrow> r = Inl (OSError FileNotFoundError) \<and> tl = [] \<and> fs w' = f2
       | Ran result f \<Rightarrow>
          (case rmtree (cwd w @ [iconset_name]) f of
             Inl e \<Rightarrow> r = Inl (OSError e) \<and> tl = [Rmtree iconset_name] \<and> fs w' = f
           | Inr f' \<Rightarrow> r = Inr (returncode result = 0) \<and>
                       tl = Rmtree iconset_name # verdict (Path output_icns) result \<and>
                       fs w' = f')"
proof -
  from assms[unfolded generate_icon_phases] show thesis
  proof (cases rule: and_then_cases)
    case (raised e)
    from prepare_events[OF raised(1)] raised(2) show thesis
      by (auto intro: prepare_raised)
  next
    case (went_on u w1)
    from prepare_events[OF went_on(1)] obtain pre where
      pre: "extends w w1 pre" "runs pre = []" by blast
    have c1: "cwd w1 = cwd w" using pre(1) by (simp add: extends_def)
    obtain returned w2 where loop: "generate_sizes sys input_image icon_sizes w1 = (returned, w2)"
      by (cases "generate_sizes sys input_image icon_sizes w1")
    from loop show thesis
    proof (cases rule: generate_sizes_course)
      case (completed es)
      with went_on(2) loop have comp: "compile sys (Path output_icns) w2 = (r, w')"
        by (simp add: and_then_def)
      have c2: "cwd w2 = cwd w" using completed(2) c1 by (simp add: extends_def)
      from compile_cases[OF comp] obtain tl where
        t: "extends w2 w' (compiling sys (Path output_icns) (fs w2) @ tl)" "runs tl = []"
        "case sys (iconutil_argv (Path output_icns)) (fs w2) of
           NotFound \<Rightarrow> r = Inl (OSError FileNotFoundError) \<and> tl = [] \<and> fs w' = fs w2
         | Ran result f \<Rightarrow>
             (case rmtree (cwd w @ [iconset_name]) f of
                Inl e \<Rightarrow> r = Inl (OSError e) \<and> tl = [Rmtree iconset_name] \<and> fs w' = f
              | Inr f' \<Rightarrow> r = Inr (returncode result = 0) \<and>
                          tl = Rmtree iconset_name # verdict (Path output_icns) result \<and>
                          fs w' = f')"
        unfolding c2 by blast
      have "extends w w' (pre @ es @ compiling sys (Path output_icns) (fs w2) @ tl)"
        using pre(1) completed(2) t(1) by (auto simp: extends_def)
      with pre(2) completed(3) t(2,3) show thesis
        by (intro compiled[of pre es tl "fs w2"])
    next
      case (not_found n es)
      with went_on(2) loop have fin: "r = Inl (OSError FileNotFoundError)" "w' = w2"
        by (simp_all add: and_then_def)
      have "extends w w' (pre @ es @ [Run (sips_argv input_image (icon_sizes ! n)) NotFound])"
        using pre(1) not_found(3) fin(2) by (auto simp: extends_def)
      with pre(2) not_found(1,2) fin(1) show thesis
        by (intro sips_not_found[of pre n es])
    next
      case (failed n es result f)
      from went_on(2) loop have fin: "w' = w2"
        "r = (case returned of Inl e \<Rightarrow> Inl e | Inr x \<Rightarrow> Inr False)"
        using failed(5)
        by (auto simp: and_then_def return_def split: sum.splits)
      have "extends w w' (pre @ es @ loop_failure input_image (icon_sizes ! n) result f)"
        using pre(1) failed(4) fin(1) by (auto simp: extends_def)
      moreover have "case rmtree (cwd w @ [iconset_name]) f of
         Inl e \<Rightarrow> r = Inl (OSError e) \<and> fs w' = f
       | Inr f' \<Rightarrow> r = Inr False \<and> fs w' = f'"
        using failed(5) fin unfolding c1 by (auto split: sum.splits)
      ultimately show thesis
        using pre(2) failed(1,2,3) by (intro sips_failed[of pre n es result f])
    qed
  qed
qed

subsection \<open>Evaluating a run\<close>

text \<open>
  Rewrite rules that run the script on a concrete world one statement at a time, for the
  sample runs the witnesses below are taken from.
\<close>

lemma and_then_run:
  "and_then (subprocess_run sys argv) k w =
     (case sys argv (fs w) of
        NotFound \<Rightarrow> (Inl (OSError FileNotFoundError), emit (Run argv NotFound) w)
      | Ran result f \<Rightarrow> k result (emit (Run argv (Ran result f)) (w\<lparr>fs := f\<rparr>)))"
  by (simp add: and_then_def subprocess_run_def split: launch.splits)

lemma and_then_rmtree:
  "and_then (shutil_rmtree iconset_name) k w =
     (case lookup (fs w) (cwd w @ [iconset_name]) of
        None \<Rightarrow> (Inl (OSError FileNotFoundError), emit (Rmtree iconset_name) w)
      | Some File \<Rightarrow> (Inl (OSError NotADirectoryError), emit (Rmtree iconset_name) w)
      | Some Dir \<Rightarrow> k () (emit (Rmtree iconset_name) (w\<lparr>fs := remove_tree (cwd w @ [iconset_name]) (fs w)\<rparr>)))"
  by (simp add: and_then_def shutil_rmtree_def rmtree_def split: option.splits node.splits)

lemma and_then_Path_mkdir:
  "and_then (Path_mkdir p) k w =
     (case path_mkdir (cwd w) p (fs w) of
        (Some e, f) \<Rightarrow> (Inl (OSError e), emit (Mkdir_parents p) (w\<lparr>fs := f\<rparr>))
      | (None, f) \<Rightarrow> k () (emit (Mkdir_parents p) (w\<lparr>fs := f\<rparr>)))"
  by (simp add: and_then_def Path_mkdir_def split: prod.splits option.splits)

lemma and_then_makedirs:
  "and_then (os_makedirs iconset_name) k w =
     (case os_mkdir (cwd w @ [iconset_name]) (fs w) of
        Inl e \<Rightarrow> (Inl (OSError e), emit (Makedirs iconset_name) w)
      | Inr f \<Rightarrow> k () (emit (Makedirs iconset_name) (w\<lparr>fs := f\<rparr>)))"
  by (simp add: and_then_def os_makedirs_def os_makedirs_fs_iconset split: sum.splits)

lemma and_then_if:
  "and_then (\<lambda>w. if b w then m w else n w) k w = (if b w then and_then m k w else and_then n k w)"
  by (simp add: and_then_def)

lemma exists_iconset:
  "os_path_exists iconset_name w = (lookup (fs w) (cwd w @ [iconset_name]) \<noteq> None)"
  by (simp add: os_path_exists_def)

lemma and_then_cond:
  "and_then (if b then m else n) k = (if b then and_then m k else and_then n k)"
  by simp

lemmas literal_steps =
  and_then_rmtree[unfolded iconset_name_def] and_then_makedirs[unfolded iconset_name_def]
  exists_iconset[unfolded iconset_name_def]

lemmas run_simps =
  iconset_name_def literal_steps and_then_Path_mkdir and_then_if and_then_run and_then_assoc
  and_then_cond
  return_def emit_def print_def sample_world_def sample_system_def sample_write_def
  path_mkdir.simps os_mkdir_def
  lookup_def locate_def Path_def parent_def remove_tree_def icon_sizes_def sips_argv_def
  iconutil_argv_def

lemmas eval_simps = generate_icon_def Let_def run_simps resolve_def os_path_join_def str_path_def

lemmas run_eval = sample_run_def eval_simps since_def

lemma sample_run_results:
  "fst (sample_run 0 0) = Inr True" "fst (sample_run 1 0) = Inr False"
  "fst (sample_run 0 2) = Inr False"
  by (simp_all add: run_eval)

subsection \<open>The claims about \<^verbatim>\<open>generate_icon\<close>\<close>

lemma rmtree_Inr:
  "rmtree d f = Inr f' \<Longrightarrow> f' = remove_tree d f \<and> lookup f d = Some Dir"
  by (auto simp: rmtree_def split: option.splits node.splits)

lemma lookup_remove_tree: "d \<noteq> [] \<Longrightarrow> lookup (remove_tree d f) (d @ q) = None"
  by (simp add: lookup_def remove_tree_def)

lemma collapse_run: "fst x = r \<Longrightarrow> x = (r, snd x)"
  by auto

text \<open>
  Claim C1. Whenever \<^verbatim>\<open>generate_icon\<close> returns, be it \<^verbatim>\<open>False\<close> after a failed rendition,
  \<^verbatim>\<open>False\<close> after a failed compilation or \<^verbatim>\<open>True\<close>, the working directory is gone:
  no node is left at its path or below it. (A run that ends in an uncaught exception of the
  operating system, such as a utility that is not installed, is none of the three exit
  paths of the claim and is not covered.)
\<close>

theorem working_directory_removed:
  assumes "generate_icon sys input_image output_icns w = (Inr b, w')"
  shows "lookup (fs w') (resolve (cwd w') iconset_name @ q) = None \<and>
         \<not> os_path_exists iconset_name w'"
proof -
  let ?d = "cwd w @ [iconset_name]"
  have "\<exists>f. cwd w' = cwd w \<and> rmtree ?d f = Inr (fs w')"
    using assms
  proof (cases rule: generate_icon_course)
    case (sips_failed pre n es result f)
    from sips_failed(6) have "rmtree ?d f = Inr (fs w')"
      by (cases "rmtree ?d f") simp_all
    with sips_failed(5) show ?thesis
      by (auto simp: extends_def)
  next
    case (compiled pre es f2 tl)
    from compiled(5) obtain result f where
      ran: "sys (iconutil_argv (Path output_icns)) f2 = Ran result f"
      by (cases "sys (iconutil_argv (Path output_icns)) f2") simp_all
    with compiled(5) have "rmtree ?d f = Inr (fs w')"
      by (cases "rmtree ?d f") simp_all
    with compiled(4) show ?thesis
      by (auto simp: extends_def)
  qed simp_all
  then obtain f where "cwd w' = cwd w" "fs w' = remove_tree ?d f"
    by (auto dest: rmtree_Inr)
  then show ?thesis
    using lookup_remove_tree[of ?d f q] lookup_remove_tree[of ?d f "[]"]
    by (simp add: os_path_exists_def)
qed

lemma ok_runs_length: "ok_runs input_image specs es \<Longrightarrow> length (runs es) = length specs"
  using ok_runs_runs[of input_image specs es] by (metis length_map)


lemma runs_loop_failure [simp]:
  "runs (loop_failure input_image spec result f) = [(sips_argv input_image spec, Ran result f)]"
  by (simp add: loop_failure_def)

lemma runs_compiling [simp]:
  "runs (compiling sys output_path f) = [(iconutil_argv output_path, sys (iconutil_argv output_path) f)]"
  by (simp add: compiling_def)

lemma length_icon_sizes [simp]: "length icon_sizes = 10"
  by (simp add: icon_sizes_def)

theorem working_directory_removed_witness:
  "os_path_exists iconset_name sample_world \<and>
   fst (sample_run 1 0) = Inr False \<and> \<not> os_path_exists iconset_name (snd (sample_run 1 0)) \<and>
   fst (sample_run 0 2) = Inr False \<and> \<not> os_path_exists iconset_name (snd (sample_run 0 2)) \<and>
   fst (sample_run 0 0) = Inr True \<and> \<not> os_path_exists iconset_name (snd (sample_run 0 0))"
proof -
  have "os_path_exists iconset_name sample_world"
    by (simp add: os_path_exists_def run_eval)
  moreover note sample_run_results
  moreover have "\<not> os_path_exists iconset_name (snd (sample_run a b))"
    if "fst (sample_run a b) = Inr c" for a b c
    using working_directory_removed[OF collapse_run[OF that, unfolded sample_run_def]]
    by (simp add: sample_run_def)
  ultimately show ?thesis by blast
qed

text \<open>
  Claim C8. When \<^verbatim>\<open>generate_icon\<close> returns, the boolean it returns is \<^verbatim>\<open>True\<close> exactly when
  the run started eleven child processes and each of them exited with status 0. The
  right-hand side reads the exit statuses of the run only: not the paths, not the
  diagnostic texts.
\<close>

theorem success_iff_all_zero:
  assumes "generate_icon sys input_image output_icns w = (Inr b, w')"
  shows "b = (map (status \<circ> snd) (runs (since w w')) = replicate 11 (Some 0))"
  using assms
proof (cases rule: generate_icon_course)
  case (sips_failed pre n es result f)
  from sips_failed(6) have b: "b = False"
    by (cases "rmtree (cwd w @ [iconset_name]) f") simp_all
  have "length (runs (since w w')) = Suc n"
    using sips_failed(1,2,3) extends_since[OF sips_failed(5)]
    by (simp add: runs_append ok_runs_length)
  then have "length (map (status \<circ> snd) (runs (since w w'))) \<noteq> length (replicate 11 (Some (0::int)))"
    using sips_failed(2) by simp
  then have "map (status \<circ> snd) (runs (since w w')) \<noteq> replicate 11 (Some 0)"
    by metis
  with b show ?thesis by simp
next
  case (compiled pre es f2 tl)
  from compiled(5) obtain result f where
    ran: "sys (iconutil_argv (Path output_icns)) f2 = Ran result f"
    by (cases "sys (iconutil_argv (Path output_icns)) f2") simp_all
  with compiled(5) have b: "b = (returncode result = 0)"
    by (cases "rmtree (cwd w @ [iconset_name]) f") simp_all
  have "runs (since w w') = runs es @ [(iconutil_argv (Path output_icns), Ran result f)]"
    using compiled(1,3) extends_since[OF compiled(4)] ran by (simp add: runs_append)
  then have "map (status \<circ> snd) (runs (since w w')) =
             replicate 10 (Some 0) @ [Some (returncode result)]"
    using ok_runs_runs[OF compiled(2)] by (simp add: status_def)
  moreover have "replicate 11 (Some (0::int)) = replicate 10 (Some 0) @ [Some 0]"
    by (simp add: replicate_append_same eval_nat_numeral)
  ultimately show ?thesis using b by auto
qed simp_all


theorem success_iff_all_zero_witness:
  "fst (sample_run 0 0) = Inr True \<and>
   map (status \<circ> snd) (runs (since sample_world (snd (sample_run 0 0)))) = replicate 11 (Some 0) \<and>
   fst (sample_run 0 2) = Inr False \<and>
   map (status \<circ> snd) (runs (since sample_world (snd (sample_run 0 2)))) \<noteq> replicate 11 (Some 0) \<and>
   fst (sample_run 1 0) = Inr False \<and>
   map (status \<circ> snd) (runs (since sample_world (snd (sample_run 1 0)))) \<noteq> replicate 11 (Some 0)"
proof -
  have "c = (map (status \<circ> snd) (runs (since sample_world (snd (sample_run a b)))) =
             replicate 11 (Some 0))"
    if "fst (sample_run a b) = Inr c" for a b c
    using success_iff_all_zero[OF collapse_run[OF that, unfolded sample_run_def]]
    by (simp add: sample_run_def)
  from this[OF sample_run_results(1)] this[OF sample_run_results(2)] this[OF sample_run_results(3)]
    sample_run_results
  show ?thesis by simp
qed





subsection \<open>The entry point\<close>











subsection \<open>The steps before the first utility\<close>

lemma os_mkdir_Inr: "os_mkdir p f = Inr g \<Longrightarrow> g = f(p \<mapsto> Dir) \<and> p \<noteq> []"
  by (auto simp: os_mkdir_def split: if_splits option.splits node.splits)

lemma path_mkdir_success:
  assumes "path_mkdir c p f = (None, f1)"
  shows "lookup f1 (locate c p) = Some Dir"
proof -
  have made: "lookup g (locate c p) = Some Dir" if "os_mkdir (locate c p) h = Inr g" for g h
    using os_mkdir_Inr[OF that] by (simp add: lookup_def)
  from assms show ?thesis
    by (subst (asm) path_mkdir.simps)
       (auto simp: made split: sum.splits if_splits prod.splits option.splits)
qed

lemma generate_sizes_extends:
  assumes "generate_sizes sys input_image specs w = (r, w')"
  shows "\<exists>es. extends w w' es"
  using generate_sizes_shape[OF assms] by blast

lemma generate_sizes_first:
  assumes "generate_sizes sys input_image (spec # specs) w = (r, w')"
  shows "\<exists>tl. extends w w'
           (Run (sips_argv input_image spec) (sys (sips_argv input_image spec) (fs w)) # tl)"
proof -
  let ?argv = "sips_argv input_image spec"
  obtain size' filename where spec: "spec = (size', filename)" by (cases spec)
  from assms spec
  have run: "and_then (subprocess_run sys ?argv) (\<lambda>result.
       if returncode result \<noteq> 0 then
         and_then (print (failed_to_generate filename (stderr result))) (\<lambda>_.
         and_then (shutil_rmtree iconset_name) (\<lambda>_.
         return (Some False)))
       else generate_sizes sys input_image specs) w = (r, w')"
    by simp
  then show ?thesis
  proof (cases rule: and_then_cases)
    case (raised e)
    from subprocess_run_cases[OF raised(1)] show ?thesis by auto
  next
    case (went_on result w1)
    from subprocess_run_cases[OF went_on(1)]
    have e1: "extends w w1 [Run ?argv (sys ?argv (fs w))]" by simp
    have "\<exists>tl. extends w1 w' tl"
    proof (cases "returncode result = 0")
      case True
      with went_on(2) show ?thesis using generate_sizes_extends by auto
    next
      case False
      let ?w2 = "emit (Print (failed_to_generate filename (stderr result))) w1"
      from went_on(2) False
      have "and_then (shutil_rmtree iconset_name) (\<lambda>_. return (Some False)) ?w2 = (r, w')"
        by simp
      then have "\<exists>x. shutil_rmtree iconset_name ?w2 = (x, w')"
        by (auto simp: and_then_def return_def split: prod.splits sum.splits)
      then obtain x where "shutil_rmtree iconset_name ?w2 = (x, w')" by blast
      from shutil_rmtree_cases[OF this] have "extends ?w2 w' [Rmtree iconset_name]" by simp
      then have "extends w1 w' [Print (failed_to_generate filename (stderr result)),
          Rmtree iconset_name]"
        by (simp add: extends_def emit_def)
      then show ?thesis by blast
    qed
    then obtain tl where "extends w1 w' tl" by blast
    with e1 have "extends w w' (Run ?argv (sys ?argv (fs w)) # tl)"
      by (simp add: extends_def)
    then show ?thesis by blast
  qed
qed

lemma icon_sizes_Cons: "icon_sizes = hd icon_sizes # tl icon_sizes"
  by (simp add: icon_sizes_def)

text \<open>
  Claim C7. In every run that starts a child process at all, the trace begins with the
  creation of the parent directory of the output path (with its missing ancestors), then
  the removal of the working directory when a node of that name exists, then its creation,
  then the three progress lines, and only then the first utility. After the first step the
  parent directory exists; the first utility runs on the file system these three steps
  produce from the initial one, in which the old working tree is gone and the working
  directory is new.
\<close>

theorem prelude_before_any_utility:
  assumes run: "generate_icon sys input_image output_icns w = (r, w')"
    and started: "runs (since w w') \<noteq> []"
  shows "(let P = parent (Path output_icns);
              d = resolve (cwd w) iconset_name;
              f1 = snd (path_mkdir (cwd w) P (fs w));
              f2 = (if lookup f1 d = None then f1 else remove_tree d f1);
              argv = sips_argv input_image (hd icon_sizes)
          in fst (path_mkdir (cwd w) P (fs w)) = None \<and>
             lookup f1 (locate (cwd w) P) = Some Dir \<and>
             (\<exists>rest. since w w' =
                Mkdir_parents P #
                (if lookup f1 d = None then [] else [Rmtree iconset_name]) @
                Makedirs iconset_name # banner input_image @
                Run argv (sys argv (f2(d \<mapsto> Dir))) # rest))"
proof -
  let ?P = "parent (Path output_icns)"
  let ?d = "cwd w @ [iconset_name]"
  let ?f1 = "snd (path_mkdir (cwd w) ?P (fs w))"
  let ?f2 = "if lookup ?f1 ?d = None then ?f1 else remove_tree ?d ?f1"
  let ?argv = "sips_argv input_image (hd icon_sizes)"
  let ?pre = "Mkdir_parents ?P # (if lookup ?f1 ?d = None then [] else [Rmtree iconset_name]) @
                Makedirs iconset_name # banner input_image"
  from run[unfolded generate_icon_phases] show ?thesis
  proof (cases rule: and_then_cases)
    case (raised e)
    from prepare_events[OF raised(1)] started show ?thesis
      by (auto simp: extends_since)
  next
    case (went_on u w1)
    from prepare_returned[OF went_on(1)[simplified]]
    have made: "fst (path_mkdir (cwd w) ?P (fs w)) = None"
      and pre: "extends w w1 ?pre"
      and mk: "os_mkdir ?d ?f2 = Inr (fs w1)"
      by (simp_all add: Let_def)
    from made have "path_mkdir (cwd w) ?P (fs w) = (None, ?f1)"
      by (metis prod.collapse)
    from path_mkdir_success[OF this] have dir: "lookup ?f1 (locate (cwd w) ?P) = Some Dir" .
    from os_mkdir_Inr[OF mk] have f3: "fs w1 = ?f2(?d \<mapsto> Dir)" by simp
    have "\<exists>rest. extends w1 w' (Run ?argv (sys ?argv (fs w1)) # rest)"
      using went_on(2)
    proof (cases rule: and_then_cases)
      case (raised e)
      from raised(1) have "generate_sizes sys input_image (hd icon_sizes # tl icon_sizes) w1 =
          (Inl e, w')"
        using icon_sizes_Cons by simp
      from generate_sizes_first[OF this] show ?thesis .
    next
      case (went_on returned w2)
      from went_on(1) have "generate_sizes sys input_image (hd icon_sizes # tl icon_sizes) w1 =
          (Inr returned, w2)"
        using icon_sizes_Cons by simp
      from generate_sizes_first[OF this] obtain tl where
        first: "extends w1 w2 (Run ?argv (sys ?argv (fs w1)) # tl)" by blast
      have "\<exists>es. extends w2 w' es"
      proof (cases returned)
        case None
        with went_on(2) have "compile sys (Path output_icns) w2 = (r, w')" by simp
        from compile_cases[OF this] show ?thesis by blast
      next
        case (Some b)
        with went_on(2) have "w' = w2" by (simp add: return_def)
        then show ?thesis using extends_refl by blast
      qed
      then obtain es where "extends w2 w' es" by blast
      with first have "extends w1 w' (Run ?argv (sys ?argv (fs w1)) # tl @ es)"
        by (simp add: extends_def)
      then show ?thesis by blast
    qed
    then obtain rest where "extends w1 w' (Run ?argv (sys ?argv (fs w1)) # rest)" by blast
    with pre have "extends w w' (?pre @ Run ?argv (sys ?argv (fs w1)) # rest)"
      by (simp add: extends_def)
    from extends_since[OF this] have "since w w' = ?pre @ Run ?argv (sys ?argv (?f2(?d \<mapsto> Dir))) # rest"
      unfolding f3 .
    with made dir show ?thesis
      by (simp add: Let_def)
  qed
qed

theorem prelude_before_any_utility_witness:
  "runs (since sample_world (snd (sample_run 0 0))) \<noteq> [] \<and>
   lookup (fs sample_world) [''home'', ''out''] = None \<and>
   lookup (fs sample_world) [''home'', ''VeloxClip.iconset'', ''stale.png''] = Some File \<and>
   take 3 (since sample_world (snd (sample_run 0 0))) =
     [Mkdir_parents (Path ''out''), Rmtree iconset_name, Makedirs iconset_name]"
proof -
  let ?P = "parent (Path ''out/AppIcon.icns'')"
  have started: "runs (since sample_world (snd (sample_run 0 0))) \<noteq> []"
    by (simp add: run_eval)
  have run: "generate_icon (sample_system 0 0) ''pic.png'' ''out/AppIcon.icns'' sample_world =
      (fst (sample_run 0 0), snd (sample_run 0 0))"
    by (simp add: sample_run_def)
  have before: "lookup (fs sample_world) [''home'', ''out''] = None"
    "lookup (fs sample_world) [''home'', ''VeloxClip.iconset'', ''stale.png''] = Some File"
    by (simp_all add: sample_world_def lookup_def)
  have P: "?P = Path ''out''"
    by (simp add: Path_def parent_def)
  have existed: "lookup (snd (path_mkdir (cwd sample_world) ?P (fs sample_world)))
      (resolve (cwd sample_world) iconset_name) = Some Dir"
    by (simp add: eval_simps)
  from prelude_before_any_utility[OF run started] existed obtain rest where
    "since sample_world (snd (sample_run 0 0)) =
       Mkdir_parents ?P # Rmtree iconset_name # Makedirs iconset_name # rest"
    by (auto simp: Let_def)
  then have "take 3 (since sample_world (snd (sample_run 0 0))) =
     [Mkdir_parents ?P, Rmtree iconset_name, Makedirs iconset_name]"
    by simp
  with started before P show ?thesis by simp
qed

subsection \<open>The parent directory of the output\<close>












end
